theory Spec2Isabelle
  imports Main "HOL-Library.Sublist"
begin

section \<open>The video scraper: data model\<close>

text \<open>
  The development follows \<^verbatim>\<open>python_scraper/web_scraper.py\<close> (class \<^verbatim>\<open>VideoScraper\<close>)
  and \<^verbatim>\<open>python_scraper/youtube_info.py\<close> (function \<^verbatim>\<open>get_video_info\<close>).

  A Python \<^verbatim>\<open>str\<close> is a \<open>string\<close>, one \<open>char\<close> per code point; Python integers are
  \<open>int\<close>. Wall-clock readings (\<^verbatim>\<open>start_time\<close>, \<^verbatim>\<open>current_time\<close>, \<^verbatim>\<open>scraped_at\<close>) and
  the politeness delay are left out of the records: no operation below reads them.
  Writes to the local file system (\<^verbatim>\<open>progress.json\<close>, the results file) are taken to
  succeed; the network and the third-party libraries are parameters of the model.
\<close>

subsection \<open>Video candidates and parsed pages\<close>

text \<open>
  The dictionary built by \<^verbatim>\<open>extract_video_data\<close>. It is returned only when it has a
  non-empty \<^verbatim>\<open>'url'\<close>, so the key is a plain field; the other keys may be absent.
\<close>

record video =
  title :: "string option"
  url :: string
  thumbnail :: "string option"
  duration :: "string option"
  views :: "string option"

text \<open>
  An HTML element as \<^verbatim>\<open>extract_video_data\<close> sees it through BeautifulSoup: the results of
  the look-ups it makes, \<open>None\<close> where \<^verbatim>\<open>find\<close> or \<^verbatim>\<open>get\<close> return \<^verbatim>\<open>None\<close>.
  \<^item> \<open>name\<close>: \<^verbatim>\<open>element.name\<close>;
  \<^item> \<open>href\<close>: \<^verbatim>\<open>element.get('href')\<close>;
  \<^item> \<open>title_text\<close>: \<^verbatim>\<open>element.find(['h1', ..., 'div']).text.strip()\<close>;
  \<^item> \<open>link_href\<close>: \<^verbatim>\<open>element.find('a', href=True)['href']\<close>;
  \<^item> \<open>img_src\<close>: \<^verbatim>\<open>element.find('img', src=True)['src']\<close>;
  \<^item> \<open>time_text\<close>, \<open>views_text\<close>: the stripped text of the duration and views elements;
  \<^item> \<open>raises\<close>: one of these look-ups raises an exception.
\<close>

record element =
  name :: string
  href :: "string option"
  title_text :: "string option"
  link_href :: "string option"
  img_src :: "string option"
  time_text :: "string option"
  views_text :: "string option"
  raises :: bool

text \<open>The five entries of \<^verbatim>\<open>video_selectors\<close>, in the order of the source.\<close>

datatype selector =
  Div_video_item
  | Article_video
  | Div_video_container
  | A_href_video_or_watch
  | Div_data_type_video

definition video_selectors :: "selector list" where
  "video_selectors =
     [Div_video_item, Article_video, Div_video_container, A_href_video_or_watch,
      Div_data_type_video]"

text \<open>
  A parsed page (\<^verbatim>\<open>soup\<close>): \<open>find_all sel\<close> is \<^verbatim>\<open>soup.find_all(**selector)\<close> in document
  order, \<open>anchors\<close> the \<^verbatim>\<open>href\<close> values of \<^verbatim>\<open>soup.find_all('a', href=True)\<close>.
\<close>

record page =
  find_all :: "selector \<Rightarrow> element list"
  anchors :: "string list"

text \<open>
  What the model takes from outside the program:
  \<^item> \<open>fetch url\<close>: \<^verbatim>\<open>session.get(url, timeout=30)\<close>, \<^verbatim>\<open>raise_for_status()\<close> and the parse;
    \<open>Inl msg\<close> when one of them raises, \<open>msg\<close> being \<^verbatim>\<open>str(e)\<close>. A URL is fetched at most
    once in a run (the visited set), so a function of the URL loses nothing;
  \<^item> \<open>urljoin\<close> and \<open>netloc\<close>: \<^verbatim>\<open>urllib.parse.urljoin\<close> and \<^verbatim>\<open>urlparse(...).netloc\<close>.
\<close>

record world =
  fetch :: "string \<Rightarrow> string + page"
  urljoin :: "string \<Rightarrow> string \<Rightarrow> string"
  netloc :: "string \<Rightarrow> string"

subsection \<open>The progress dictionary and the scraper object\<close>

text \<open>
  \<^verbatim>\<open>self.progress\<close>. The keys \<^verbatim>\<open>'videos_found'\<close> and \<^verbatim>\<open>'videos_downloaded'\<close> are the
  fields \<open>n_videos_found\<close> and \<open>n_videos_downloaded\<close> (the scraper object has lists of
  the same names).
\<close>

record progress =
  status :: string
  pages_scraped :: int
  n_videos_found :: int
  n_videos_downloaded :: int
  errors :: int
  current_url :: "string option"
  last_error :: "string option"
  total_to_download :: "int option"

text \<open>The keyword arguments that the program passes to \<^verbatim>\<open>update_progress\<close>.\<close>

datatype kwarg =
  Status string
  | Pages_scraped int
  | Videos_found int
  | Videos_downloaded int
  | Errors int
  | Current_url string
  | Last_error string
  | Total_to_download int

text \<open>
  The \<^verbatim>\<open>VideoScraper\<close> object with what it writes to the outside:
  \<^item> \<open>emitted\<close>: the lines printed by \<^verbatim>\<open>update_progress\<close>, oldest first;
  \<^item> \<open>progress_file\<close>: the content of \<^verbatim>\<open>progress.json\<close>;
  \<^item> \<open>results_file\<close>: the snapshot written by \<^verbatim>\<open>save_results\<close>;
  \<^item> \<open>requests\<close>: the GET requests issued, oldest first, each with the depth of
    the call that issued it.
\<close>

record scraper =
  base_url :: string
  visited_urls :: "string set"
  videos_found :: "video list"
  videos_downloaded :: "video list"
  progress :: progress
  emitted :: "progress list"
  progress_file :: "progress option"
  results_file :: "video list option"
  requests :: "(string \<times> int) list"

text \<open>\<^verbatim>\<open>__init__\<close>.\<close>

definition init_progress :: progress where
  "init_progress =
     \<lparr>status = ''starting'', pages_scraped = 0, n_videos_found = 0,
      n_videos_downloaded = 0, errors = 0, current_url = None, last_error = None,
      total_to_download = None\<rparr>"

definition init_scraper :: "string \<Rightarrow> scraper" where
  "init_scraper b =
     \<lparr>base_url = b, visited_urls = {}, videos_found = [], videos_downloaded = [],
      progress = init_progress, emitted = [], progress_file = None,
      results_file = None, requests = []\<rparr>"

section \<open>The progress reporter\<close>

fun set_key :: "kwarg \<Rightarrow> progress \<Rightarrow> progress" where
  "set_key (Status v) p = p\<lparr>status := v\<rparr>"
| "set_key (Pages_scraped n) p = p\<lparr>pages_scraped := n\<rparr>"
| "set_key (Videos_found n) p = p\<lparr>n_videos_found := n\<rparr>"
| "set_key (Videos_downloaded n) p = p\<lparr>n_videos_downloaded := n\<rparr>"
| "set_key (Errors n) p = p\<lparr>errors := n\<rparr>"
| "set_key (Current_url v) p = p\<lparr>current_url := Some v\<rparr>"
| "set_key (Last_error v) p = p\<lparr>last_error := Some v\<rparr>"
| "set_key (Total_to_download n) p = p\<lparr>total_to_download := Some n\<rparr>"

text \<open>
  \<^verbatim>\<open>update_progress(**kwargs)\<close>: merge the keys, print the dictionary, overwrite
  \<^verbatim>\<open>progress.json\<close>.
\<close>

definition update_progress :: "kwarg list \<Rightarrow> scraper \<Rightarrow> scraper" where
  "update_progress kwargs s =
     (let p = fold set_key kwargs (progress s)
      in s\<lparr>progress := p, emitted := emitted s @ [p], progress_file := Some p\<rparr>)"

section \<open>The extractor\<close>

text \<open>
  \<^verbatim>\<open>extract_video_data(element, base_url)\<close>. The URL comes from the first anchor below
  the element, else from the element itself when it is an anchor with a non-empty
  \<^verbatim>\<open>href\<close>. The result is \<open>None\<close> when a look-up raises or the URL is missing or empty.
\<close>

definition found_url :: "(string \<Rightarrow> string \<Rightarrow> string) \<Rightarrow> element \<Rightarrow> string \<Rightarrow> string option" where
  "found_url join e b =
     (case link_href e of
        Some h \<Rightarrow> Some (join b h)
      | None \<Rightarrow>
          (case href e of
             Some h \<Rightarrow> if name e = ''a'' \<and> h \<noteq> [] then Some (join b h) else None
           | None \<Rightarrow> None))"

definition extract_video_data :: "(string \<Rightarrow> string \<Rightarrow> string) \<Rightarrow> element \<Rightarrow> string \<Rightarrow> video option" where
  "extract_video_data join e b =
     (if raises e then None
      else case found_url join e b of
             None \<Rightarrow> None
           | Some u \<Rightarrow>
               if u = [] then None
               else Some
                 \<lparr>title = (case title_text e of
                             None \<Rightarrow> None
                           | Some t \<Rightarrow> if t = [] then None else Some (take 200 t)),
                  url = u,
                  thumbnail = map_option (join b) (img_src e),
                  duration = time_text e,
                  views = views_text e\<rparr>)"

text \<open>
  The inner loop of the page scan, lines 82 to 86: the elements matched by one selector,
  with \<^verbatim>\<open>videos_on_page\<close> as accumulator. The \<^verbatim>\<open>break\<close> ends this loop only.
\<close>

fun scan_elements ::
  "(string \<Rightarrow> string \<Rightarrow> string) \<Rightarrow> string \<Rightarrow> element list \<Rightarrow> video list \<Rightarrow> video list" where
  "scan_elements join pu [] videos_on_page = videos_on_page"
| "scan_elements join pu (elem # elements) videos_on_page =
     (case extract_video_data join elem pu of
        None \<Rightarrow> scan_elements join pu elements videos_on_page
      | Some video_data \<Rightarrow>
          if url video_data \<noteq> [] then videos_on_page @ [video_data]
          else scan_elements join pu elements videos_on_page)"

text \<open>The outer loop, lines 80 and 81: every selector of the list, in order.\<close>

fun scan_selectors ::
  "(string \<Rightarrow> string \<Rightarrow> string) \<Rightarrow> page \<Rightarrow> string \<Rightarrow> selector list \<Rightarrow> video list \<Rightarrow> video list" where
  "scan_selectors join soup pu [] videos_on_page = videos_on_page"
| "scan_selectors join soup pu (sel # sels) videos_on_page =
     scan_selectors join soup pu sels
       (scan_elements join pu (find_all soup sel) videos_on_page)"

text \<open>The deduplication loop, lines 89 to 94, with \<^verbatim>\<open>seen_urls\<close> and \<^verbatim>\<open>unique_videos\<close>.\<close>

fun deduplicate :: "video list \<Rightarrow> string set \<Rightarrow> video list \<Rightarrow> video list" where
  "deduplicate [] seen_urls unique_videos = unique_videos"
| "deduplicate (v # vs) seen_urls unique_videos =
     (if url v \<notin> seen_urls
      then deduplicate vs (insert (url v) seen_urls) (unique_videos @ [v])
      else deduplicate vs seen_urls unique_videos)"

definition videos_on_page :: "world \<Rightarrow> page \<Rightarrow> string \<Rightarrow> video list" where
  "videos_on_page w soup pu = scan_selectors (urljoin w) soup pu video_selectors []"

definition unique_videos :: "world \<Rightarrow> page \<Rightarrow> string \<Rightarrow> video list" where
  "unique_videos w soup pu = deduplicate (videos_on_page w soup pu) {} []"

section \<open>The crawl controller\<close>

text \<open>
  Lines 59 to 64: the URL joins the visited set, the progress is reported, the GET
  request goes out.
\<close>

definition begin_page :: "string \<Rightarrow> int \<Rightarrow> scraper \<Rightarrow> scraper" where
  "begin_page u depth s =
     (let s1 = s\<lparr>visited_urls := insert u (visited_urls s)\<rparr>;
          s2 = update_progress [Status ''scraping_page'', Current_url u] s1
      in s2\<lparr>requests := requests s2 @ [(u, depth)]\<rparr>)"

text \<open>The handler, lines 120 to 124.\<close>

definition page_failed :: "string \<Rightarrow> scraper \<Rightarrow> scraper" where
  "page_failed e s =
     update_progress [Errors (errors (progress s) + 1), Last_error e] s"

text \<open>
  Modelled from the spec: \<^verbatim>\<open>save_results\<close>, whose body is not in the source file. The
  Result Store is a snapshot of the accumulated candidate records, overwritten after
  each page.
\<close>

definition save_results :: "scraper \<Rightarrow> scraper" where
  "save_results s = s\<lparr>results_file := Some (videos_found s)\<rparr>"

text \<open>Lines 78 to 104: extraction, deduplication, accumulation, report, snapshot.\<close>

definition page_scraped :: "world \<Rightarrow> page \<Rightarrow> string \<Rightarrow> scraper \<Rightarrow> scraper" where
  "page_scraped w soup u s =
     (let s1 = s\<lparr>videos_found := videos_found s @ unique_videos w soup u\<rparr>;
          s2 = update_progress
                 [Pages_scraped (pages_scraped (progress s1) + 1),
                  Videos_found (int (length (videos_found s1)))] s1
      in save_results s2)"

text \<open>
  Line 116: \<^verbatim>\<open>any(ext in absolute_url.lower() for ext in [...])\<close>. The five extensions are
  ASCII, so lowering the ASCII letters decides the test.
\<close>

definition lower_char :: "char \<Rightarrow> char" where
  "lower_char c =
     (case map_of (zip ''ABCDEFGHIJKLMNOPQRSTUVWXYZ'' ''abcdefghijklmnopqrstuvwxyz'') c of
        None \<Rightarrow> c
      | Some d \<Rightarrow> d)"

definition lower :: "string \<Rightarrow> string" where
  "lower = map lower_char"

definition non_page_exts :: "string list" where
  "non_page_exts = [''.jpg'', ''.png'', ''.mp4'', ''.mp3'', ''.pdf'']"

definition has_non_page_ext :: "string \<Rightarrow> bool" where
  "has_non_page_ext absolute_url =
     list_ex (\<lambda>ext. sublist ext (lower absolute_url)) non_page_exts"

text \<open>
  \<^verbatim>\<open>scrape_page(url, depth, max_depth)\<close> and its loop over the links of the page, lines
  107 to 118. The \<^verbatim>\<open>try\<close> block is the case distinction on the fetch: its \<open>Inl\<close> branch is
  the \<^verbatim>\<open>except\<close> handler.
\<close>

function scrape_page :: "world \<Rightarrow> string \<Rightarrow> int \<Rightarrow> int \<Rightarrow> scraper \<Rightarrow> scraper"
  and follow_links :: "world \<Rightarrow> string \<Rightarrow> string list \<Rightarrow> int \<Rightarrow> int \<Rightarrow> scraper \<Rightarrow> scraper"
where
  "scrape_page w u depth max_depth s =
     (if depth > max_depth \<or> u \<in> visited_urls s then s
      else case fetch w u of
             Inl e \<Rightarrow> page_failed e (begin_page u depth s)
           | Inr soup \<Rightarrow>
               if depth < max_depth
               then follow_links w u (anchors soup) depth max_depth
                      (page_scraped w soup u (begin_page u depth s))
               else page_scraped w soup u (begin_page u depth s))"
| "follow_links w u [] depth max_depth s = s"
| "follow_links w u (link # links) depth max_depth s =
     (if netloc w (urljoin w u link) = netloc w (base_url s)
      then if \<not> has_non_page_ext (urljoin w u link)
           then follow_links w u links depth max_depth
                  (scrape_page w (urljoin w u link) (depth + 1) max_depth s)
           else follow_links w u links depth max_depth s
      else follow_links w u links depth max_depth s)"
  by pat_completeness auto
termination
  by (relation
        "measures
           [\<lambda>x. case x of
                  Inl (w, u, depth, max_depth, s) \<Rightarrow> nat (max_depth + 1 - depth)
                | Inr (w, u, links, depth, max_depth, s) \<Rightarrow> nat (max_depth - depth),
            \<lambda>x. case x of
                  Inl (w, u, depth, max_depth, s) \<Rightarrow> 0
                | Inr (w, u, links, depth, max_depth, s) \<Rightarrow> Suc (length links)]")
    auto

section \<open>The download phase\<close>

text \<open>
  \<^verbatim>\<open>download_videos(quality, concurrent)\<close>, lines 166 to 176. The source file ends with
  the head of the loop \<^verbatim>\<open>for video in self.videos_found[:20]\<close>; what the thread pool does
  with the videos of that slice is the parameter \<open>pool\<close>.
\<close>

definition download_videos ::
  "(string \<Rightarrow> int \<Rightarrow> video list \<Rightarrow> scraper \<Rightarrow> scraper) \<Rightarrow> string \<Rightarrow> int \<Rightarrow> scraper \<Rightarrow> scraper" where
  "download_videos pool quality concurrent s =
     (if videos_found s = [] then update_progress [Status ''no_videos_found''] s
      else pool quality concurrent (take 20 (videos_found s))
             (update_progress
                [Status ''downloading_videos'',
                 Total_to_download (int (length (videos_found s)))] s))"

text \<open>A pool that does nothing: the reports of \<^verbatim>\<open>download_videos\<close> itself remain.\<close>

definition no_pool :: "string \<Rightarrow> int \<Rightarrow> video list \<Rightarrow> scraper \<Rightarrow> scraper" where
  "no_pool quality concurrent videos s = s"

text \<open>The four counters of the progress dictionary, compared together.\<close>

definition counters_le :: "progress \<Rightarrow> progress \<Rightarrow> bool" where
  "counters_le p q \<longleftrightarrow>
     pages_scraped p \<le> pages_scraped q \<and> n_videos_found p \<le> n_videos_found q \<and>
     n_videos_downloaded p \<le> n_videos_downloaded q \<and> errors p \<le> errors q"

section \<open>The info-only utility\<close>











section \<open>A small site for running the crawl\<close>

text \<open>
  The network location and the path of an absolute URL of the form
  \<^verbatim>\<open>scheme://netloc/path?query#fragment\<close>, as \<^verbatim>\<open>urlparse\<close> gives them.
\<close>

fun after_scheme :: "string \<Rightarrow> string" where
  "after_scheme (a # b # c # cs) =
     (if a = CHR '':'' \<and> b = CHR ''/'' \<and> c = CHR ''/'' then cs
      else after_scheme (b # c # cs))"
| "after_scheme cs = []"

definition url_netloc :: "string \<Rightarrow> string" where
  "url_netloc u = takeWhile (\<lambda>c. c \<notin> set ''/?#'') (after_scheme u)"



text \<open>
  A container element with an anchor child. The anchors of the containers of a page are
  among the links of the page, in document order.
\<close>

definition container :: "string \<Rightarrow> string \<Rightarrow> string \<Rightarrow> element" where
  "container tag t h =
     \<lparr>name = tag, href = None, title_text = Some t, link_href = Some h, img_src = None,
      time_text = None, views_text = None, raises = False\<rparr>"

definition root_page :: page where
  "root_page =
     \<lparr>find_all =
        (\<lambda>sel. if sel = Div_video_item
                then [container ''div'' ''First'' ''http://example.com/v/1.mp4'',
                      container ''div'' ''Third'' ''http://example.com/v/3.mp4'']
              else if sel = Article_video
                then [container ''article'' ''Second'' ''http://example.com/v/2.mp4'']
              else []),
      anchors =
        [''http://example.com/v/1.mp4'',
         ''http://example.com/v/3.mp4'',
         ''http://example.com/v/2.mp4'',
         ''http://other.org/page'',
         ''http://example.com/photo.JPG'',
         ''http://example.com/report.pdf.html'',
         ''http://example.com/down'',
         ''http://example.com/page2'']\<rparr>"

definition second_page :: page where
  "second_page =
     \<lparr>find_all =
        (\<lambda>sel. if sel = Div_video_container
                then [container ''div'' ''First again'' ''http://example.com/v/1.mp4'']
              else []),
      anchors =
        [''http://example.com/v/1.mp4'', ''http://example.com/page3'', ''http://example.com/'']\<rparr>"

definition plain_page :: page where
  "plain_page = \<lparr>find_all = (\<lambda>sel. []), anchors = []\<rparr>"

text \<open>
  The site: three pages that answer, one that fails, and pages behind links that the
  crawl must not follow. Its links are absolute, and \<^verbatim>\<open>urljoin\<close> returns an absolute
  second argument as it is.
\<close>

definition site :: world where
  "site =
     \<lparr>fetch =
        (\<lambda>u. if u = ''http://example.com/'' then Inr root_page
             else if u = ''http://example.com/page2'' then Inr second_page
             else if u = ''http://example.com/down'' then Inl ''503 Server Error''
             else Inr plain_page),
      urljoin = (\<lambda>b h. h),
      netloc = url_netloc\<rparr>"

definition home :: string where
  "home = ''http://example.com/''"

section \<open>Invariants of the crawl, as a proof rule\<close>

text \<open>
  A property \<open>I\<close> of the scraper object holds after a crawl when the three steps of a page
  keep it: \<open>J\<close> is what holds between the request and its outcome, \<open>G\<close> what is known of
  the URL and depth of every call.
\<close>

definition page_steps ::
  "world \<Rightarrow> int \<Rightarrow> (scraper \<Rightarrow> bool) \<Rightarrow> (scraper \<Rightarrow> bool) \<Rightarrow> (string \<Rightarrow> int \<Rightarrow> bool) \<Rightarrow> bool" where
  "page_steps w m I J G \<longleftrightarrow>
     (\<forall>u d s. I s \<longrightarrow> d \<le> m \<longrightarrow> u \<notin> visited_urls s \<longrightarrow> G u d \<longrightarrow> J (begin_page u d s)) \<and>
     (\<forall>e s. J s \<longrightarrow> I (page_failed e s)) \<and>
     (\<forall>soup u s. J s \<longrightarrow> I (page_scraped w soup u s)) \<and>
     (\<forall>pu a d s. I s \<longrightarrow> d < m \<longrightarrow> G pu d \<longrightarrow> netloc w a = netloc w (base_url s) \<longrightarrow>
        \<not> has_non_page_ext a \<longrightarrow> G a (d + 1))"

section \<open>Properties\<close>

subsection \<open>The effect of each step on the scraper object\<close>

declare scrape_page.simps [simp del] follow_links.simps(2) [simp del]

lemma update_progress_fields [simp]:
  "base_url (update_progress k s) = base_url s"
  "visited_urls (update_progress k s) = visited_urls s"
  "videos_found (update_progress k s) = videos_found s"
  "videos_downloaded (update_progress k s) = videos_downloaded s"
  "requests (update_progress k s) = requests s"
  "results_file (update_progress k s) = results_file s"
  "progress (update_progress k s) = fold set_key k (progress s)"
  "emitted (update_progress k s) = emitted s @ [fold set_key k (progress s)]"
  "progress_file (update_progress k s) = Some (fold set_key k (progress s))"
  by (simp_all add: update_progress_def Let_def)

lemma begin_page_fields [simp]:
  "base_url (begin_page u d s) = base_url s"
  "visited_urls (begin_page u d s) = insert u (visited_urls s)"
  "videos_found (begin_page u d s) = videos_found s"
  "videos_downloaded (begin_page u d s) = videos_downloaded s"
  "requests (begin_page u d s) = requests s @ [(u, d)]"
  "progress (begin_page u d s) = (progress s)\<lparr>status := ''scraping_page'', current_url := Some u\<rparr>"
  "emitted (begin_page u d s) =
     emitted s @ [(progress s)\<lparr>status := ''scraping_page'', current_url := Some u\<rparr>]"
  by (simp_all add: begin_page_def Let_def)

lemma page_failed_fields [simp]:
  "base_url (page_failed e s) = base_url s"
  "visited_urls (page_failed e s) = visited_urls s"
  "videos_found (page_failed e s) = videos_found s"
  "videos_downloaded (page_failed e s) = videos_downloaded s"
  "requests (page_failed e s) = requests s"
  "progress (page_failed e s) = (progress s)\<lparr>errors := errors (progress s) + 1, last_error := Some e\<rparr>"
  "emitted (page_failed e s) =
     emitted s @ [(progress s)\<lparr>errors := errors (progress s) + 1, last_error := Some e\<rparr>]"
  by (simp_all add: page_failed_def)

lemma page_scraped_fields [simp]:
  "base_url (page_scraped w soup u s) = base_url s"
  "visited_urls (page_scraped w soup u s) = visited_urls s"
  "videos_found (page_scraped w soup u s) = videos_found s @ unique_videos w soup u"
  "videos_downloaded (page_scraped w soup u s) = videos_downloaded s"
  "requests (page_scraped w soup u s) = requests s"
  "progress (page_scraped w soup u s) =
     (progress s)\<lparr>pages_scraped := pages_scraped (progress s) + 1,
                  n_videos_found := int (length (videos_found s @ unique_videos w soup u))\<rparr>"
  "emitted (page_scraped w soup u s) =
     emitted s @
     [(progress s)\<lparr>pages_scraped := pages_scraped (progress s) + 1,
                   n_videos_found := int (length (videos_found s @ unique_videos w soup u))\<rparr>]"
  by (simp_all add: page_scraped_def save_results_def Let_def)

subsection \<open>The four ways through \<^verbatim>\<open>scrape_page\<close> and the step of the link loop\<close>

lemma scrape_page_skip:
  "max_depth < depth \<or> u \<in> visited_urls s \<Longrightarrow> scrape_page w u depth max_depth s = s"
  by (simp add: scrape_page.simps)

lemma scrape_page_failed:
  "\<not> (max_depth < depth \<or> u \<in> visited_urls s) \<Longrightarrow> fetch w u = Inl e \<Longrightarrow>
   scrape_page w u depth max_depth s = page_failed e (begin_page u depth s)"
  by (simp add: scrape_page.simps)

lemma scrape_page_follow:
  "\<not> (max_depth < depth \<or> u \<in> visited_urls s) \<Longrightarrow> fetch w u = Inr soup \<Longrightarrow>
   depth < max_depth \<Longrightarrow>
   scrape_page w u depth max_depth s =
     follow_links w u (anchors soup) depth max_depth (page_scraped w soup u (begin_page u depth s))"
  by (simp add: scrape_page.simps)

lemma scrape_page_leaf:
  "\<not> (max_depth < depth \<or> u \<in> visited_urls s) \<Longrightarrow> fetch w u = Inr soup \<Longrightarrow>
   \<not> depth < max_depth \<Longrightarrow>
   scrape_page w u depth max_depth s = page_scraped w soup u (begin_page u depth s)"
  by (simp add: scrape_page.simps)

lemma follow_links_step:
  "follow_links w u (link # links) depth max_depth s =
     follow_links w u links depth max_depth
       (if netloc w (urljoin w u link) = netloc w (base_url s) \<and>
           \<not> has_non_page_ext (urljoin w u link)
        then scrape_page w (urljoin w u link) (depth + 1) max_depth s else s)"
  by (simp add: follow_links.simps)

subsection \<open>Invariants of the crawl\<close>

lemma crawl_invariant:
  "page_steps w m I J G \<Longrightarrow> I s \<Longrightarrow> G u d \<Longrightarrow> I (scrape_page w u d m s)"
  "page_steps w m I J G \<Longrightarrow> I s \<Longrightarrow> d' < m \<Longrightarrow> G pu d' \<Longrightarrow> I (follow_links w pu links d' m s)"
proof (induction w u d m s and w pu links d' m s rule: scrape_page_follow_links.induct)
  case (1 w u depth max_depth s)
  note steps = \<open>page_steps w max_depth I J G\<close>
  show ?case
  proof (cases "max_depth < depth \<or> u \<in> visited_urls s")
    case True
    then show ?thesis using \<open>I s\<close> by (simp add: scrape_page_skip)
  next
    case False
    then have J: "J (begin_page u depth s)"
      using steps \<open>I s\<close> \<open>G u depth\<close> by (simp add: page_steps_def)
    show ?thesis
    proof (cases "fetch w u")
      case (Inl e)
      have "I (page_failed e (begin_page u depth s))"
        using steps J by (simp add: page_steps_def)
      then show ?thesis by (simp add: scrape_page_failed [OF False Inl])
    next
      case (Inr soup)
      have P: "I (page_scraped w soup u (begin_page u depth s))"
        using steps J by (simp add: page_steps_def)
      show ?thesis
      proof (cases "depth < max_depth")
        case True
        from "1.IH" [OF False Inr True steps P True \<open>G u depth\<close>] show ?thesis
          by (simp add: scrape_page_follow [OF False Inr True])
      next
        case deep: False
        with P show ?thesis by (simp add: scrape_page_leaf [OF False Inr deep])
      qed
    qed
  qed
next
  case (2 w u depth max_depth s)
  then show ?case by simp
next
  case (3 w u link links depth max_depth s)
  note steps = \<open>page_steps w max_depth I J G\<close>
  show ?case
  proof (cases "netloc w (urljoin w u link) = netloc w (base_url s)")
    case same: True
    show ?thesis
    proof (cases "has_non_page_ext (urljoin w u link)")
      case True
      from "3.IH"(3) [OF same _ steps \<open>I s\<close> \<open>depth < max_depth\<close> \<open>G u depth\<close>] True
      show ?thesis by (simp add: follow_links_step)
    next
      case False
      have G': "G (urljoin w u link) (depth + 1)"
        using steps \<open>I s\<close> \<open>depth < max_depth\<close> \<open>G u depth\<close> same False
        unfolding page_steps_def by blast
      have "I (scrape_page w (urljoin w u link) (depth + 1) max_depth s)"
        using "3.IH"(1) [OF same False steps \<open>I s\<close> G'] .
      from "3.IH"(2) [OF same False steps this \<open>depth < max_depth\<close> \<open>G u depth\<close>] same False
      show ?thesis by (simp add: follow_links_step)
    qed
  next
    case False
    from "3.IH"(4) [OF False steps \<open>I s\<close> \<open>depth < max_depth\<close> \<open>G u depth\<close>] False
    show ?thesis by (simp add: follow_links_step)
  qed
qed

subsection \<open>The extractor\<close>

lemma extract_video_data_url:
  "extract_video_data join e b = Some v \<Longrightarrow> url v \<noteq> []"
  by (auto simp: extract_video_data_def split: if_splits option.splits)

lemma scan_elements_take:
  "scan_elements join pu es acc =
     acc @ take 1 (List.map_filter (\<lambda>e. extract_video_data join e pu) es)"
proof (induction es)
  case Nil
  then show ?case by (simp add: List.map_filter_simps)
next
  case (Cons e es)
  show ?case
  proof (cases "extract_video_data join e pu")
    case None
    with Cons show ?thesis by (simp add: List.map_filter_simps)
  next
    case (Some v)
    with extract_video_data_url [OF Some] show ?thesis
      by (simp add: List.map_filter_simps)
  qed
qed

lemma scan_selectors_concat:
  "scan_selectors join soup pu sels acc =
     acc @ concat (map (\<lambda>sel. scan_elements join pu (find_all soup sel) []) sels)"
proof (induction sels arbitrary: acc)
  case Nil
  then show ?case by simp
next
  case (Cons sel sels)
  have "scan_elements join pu (find_all soup sel) acc =
          acc @ scan_elements join pu (find_all soup sel) []"
    by (simp add: scan_elements_take [of _ _ _ acc] scan_elements_take [of _ _ _ "[]"])
  with Cons show ?case by simp
qed



subsection \<open>The accumulated list of videos\<close>

lemma videos_found_grow:
  "prefix xs (videos_found s) \<Longrightarrow> prefix xs (videos_found (scrape_page w u d m s))"
proof -
  have "page_steps w m (\<lambda>s. prefix xs (videos_found s)) (\<lambda>s. prefix xs (videos_found s))
          (\<lambda>a k. True)"
    by (simp add: page_steps_def prefix_prefix)
  from crawl_invariant(1) [OF this] show "prefix xs (videos_found s) \<Longrightarrow> ?thesis"
    by simp
qed


section \<open>The claims\<close>

subsection \<open>C1: duplicates in the accumulated list\<close>




subsection \<open>C2: the selectors of one page scan\<close>



subsection \<open>C10: one candidate for each selector\<close>

text \<open>
  Claim C10: the scan of the elements matched by one selector adds the candidate of the
  first element that has one and nothing else, so at most one candidate for each
  selector and at most five for the page.
\<close>

theorem one_candidate_per_selector:
  "scan_elements join pu es acc =
     acc @ take 1 (List.map_filter (\<lambda>e. extract_video_data join e pu) es) \<and>
   length (scan_elements join pu es acc) \<le> length acc + 1 \<and>
   length (videos_on_page w soup pu) \<le> 5"
proof -
  have one: "length (scan_elements j p xs []) \<le> 1" for j p xs
    by (simp add: scan_elements_take)
  have "length (videos_on_page w soup pu) \<le> 1 + 1 + 1 + 1 + 1"
    unfolding videos_on_page_def video_selectors_def scan_selectors_concat
    using one [of "urljoin w" pu "find_all soup Div_video_item"]
      one [of "urljoin w" pu "find_all soup Article_video"]
      one [of "urljoin w" pu "find_all soup Div_video_container"]
      one [of "urljoin w" pu "find_all soup A_href_video_or_watch"]
      one [of "urljoin w" pu "find_all soup Div_data_type_video"]
    by simp
  then show ?thesis by (simp add: scan_elements_take)
qed

text \<open>
  On the first page of the site the first selector matches two elements with a link each:
  the first gives the candidate, the second is not reached.
\<close>

theorem one_candidate_per_selector_witness:
  "map link_href (find_all root_page Div_video_item) =
     [Some ''http://example.com/v/1.mp4'', Some ''http://example.com/v/3.mp4''] \<and>
   map url (scan_elements (urljoin site) home (find_all root_page Div_video_item) []) =
     [''http://example.com/v/1.mp4''] \<and>
   length (videos_on_page site root_page home) \<le> 5"
proof -
  have "map link_href (find_all root_page Div_video_item) =
     [Some ''http://example.com/v/1.mp4'', Some ''http://example.com/v/3.mp4'']"
    by (simp add: root_page_def container_def)
  moreover have
    "map url (scan_elements (urljoin site) home (find_all root_page Div_video_item) []) =
       [''http://example.com/v/1.mp4'']"
    by code_simp
  moreover have "length (videos_on_page site root_page home) \<le> 5"
    using one_candidate_per_selector [where w = site and soup = root_page and pu = home]
    by blast
  ultimately show ?thesis by blast
qed

subsection \<open>C3: which links are followed\<close>







subsection \<open>C4: the depth bound\<close>

lemma requests_depths:
  "\<exists>new. requests (scrape_page w u d m s) = requests s @ new \<and>
         (\<forall>(a, k)\<in>set new. d \<le> k \<and> k \<le> m)"
proof -
  let ?I = "\<lambda>t. \<exists>new. requests t = requests s @ new \<and> (\<forall>(a, k)\<in>set new. d \<le> k \<and> k \<le> m)"
  let ?G = "\<lambda>(a::string) k. d \<le> k"
  have "page_steps w m ?I ?I ?G"
    unfolding page_steps_def by auto
  from crawl_invariant(1) [OF this, where s = s and u = u and d = d] show ?thesis
    by simp
qed

lemma requests_leaf:
  assumes "\<not> d < m"
  shows "length (requests (scrape_page w u d m s)) \<le> length (requests s) + 1"
proof (cases "m < d \<or> u \<in> visited_urls s")
  case True
  then show ?thesis by (simp add: scrape_page_skip)
next
  case False
  show ?thesis
  proof (cases "fetch w u")
    case (Inl e)
    then show ?thesis by (simp add: scrape_page_failed [OF False])
  next
    case (Inr soup)
    then show ?thesis by (simp add: scrape_page_leaf [OF False _ assms])
  qed
qed

text \<open>
  Claim C4: a call with \<open>depth > max_depth\<close> returns the scraper object as it is, without a
  request; every request that a call issues carries a depth between the depth of the
  call and \<open>max_depth\<close>; a call with \<open>depth \<ge> max_depth\<close> issues at most one request, its own,
  and none at \<open>depth + 1\<close>; so a run from the root at depth 0 never requests a page at a
  depth above \<open>max_depth\<close>.
\<close>

theorem depth_bound:
  "(max_depth < depth \<longrightarrow> scrape_page w u depth max_depth s = s) \<and>
   (\<exists>new. requests (scrape_page w u depth max_depth s) = requests s @ new \<and>
      (\<forall>(a, k)\<in>set new. depth \<le> k \<and> k \<le> max_depth) \<and>
      (\<not> depth < max_depth \<longrightarrow> length new \<le> 1)) \<and>
   (\<forall>(a, k)\<in>set (requests (scrape_page w u 0 max_depth (init_scraper b))).
      0 \<le> k \<and> k \<le> max_depth)"
proof (intro conjI impI)
  assume "max_depth < depth"
  then show "scrape_page w u depth max_depth s = s"
    by (simp add: scrape_page_skip)
next
  obtain new where new: "requests (scrape_page w u depth max_depth s) = requests s @ new"
    "\<forall>(a, k)\<in>set new. depth \<le> k \<and> k \<le> max_depth"
    using requests_depths by blast
  have "\<not> depth < max_depth \<longrightarrow> length new \<le> 1"
    using requests_leaf [of depth max_depth w u s] new(1) by simp
  with new show "\<exists>new. requests (scrape_page w u depth max_depth s) = requests s @ new \<and>
      (\<forall>(a, k)\<in>set new. depth \<le> k \<and> k \<le> max_depth) \<and>
      (\<not> depth < max_depth \<longrightarrow> length new \<le> 1)"
    by blast
next
  from requests_depths [of w u 0 max_depth "init_scraper b"]
  show "\<forall>(a, k)\<in>set (requests (scrape_page w u 0 max_depth (init_scraper b))).
      0 \<le> k \<and> k \<le> max_depth"
    by (auto simp: init_scraper_def)
qed

text \<open>
  On the site, \<^verbatim>\<open>/page3\<close> is linked from \<^verbatim>\<open>/page2\<close> at depth 1: it is requested with
  \<open>max_depth = 2\<close> and not with \<open>max_depth = 1\<close>.
\<close>

theorem depth_bound_witness:
  "requests (scrape_page site home 0 1 (init_scraper home)) =
     [(home, 0), (''http://example.com/down'', 1), (''http://example.com/page2'', 1)] \<and>
   anchors second_page =
     [''http://example.com/v/1.mp4'', ''http://example.com/page3'', ''http://example.com/''] \<and>
   requests (scrape_page site home 0 2 (init_scraper home)) =
     [(home, 0), (''http://example.com/down'', 1), (''http://example.com/page2'', 1),
      (''http://example.com/page3'', 2)] \<and>
   scrape_page site ''http://example.com/page3'' 2 1 (init_scraper home) = init_scraper home \<and>
   list_all (\<lambda>(a, k). 0 \<le> k \<and> k \<le> 1)
     (requests (scrape_page site home 0 1 (init_scraper home)))"
proof -
  have run: "requests (scrape_page site home 0 1 (init_scraper home)) =
     [(home, 0), (''http://example.com/down'', 1), (''http://example.com/page2'', 1)]"
    "requests (scrape_page site home 0 2 (init_scraper home)) =
     [(home, 0), (''http://example.com/down'', 1), (''http://example.com/page2'', 1),
      (''http://example.com/page3'', 2)]"
    by code_simp+
  have links: "anchors second_page =
     [''http://example.com/v/1.mp4'', ''http://example.com/page3'', ''http://example.com/'']"
    by (simp add: second_page_def)
  from depth_bound [where max_depth = 1 and depth = 2 and w = site
      and u = "''http://example.com/page3''" and s = "init_scraper home"]
  have skip: "scrape_page site ''http://example.com/page3'' 2 1 (init_scraper home) =
      init_scraper home"
    by simp
  from depth_bound [where max_depth = 1 and w = site and u = home and b = home]
  have "list_all (\<lambda>(a, k). 0 \<le> k \<and> k \<le> 1)
     (requests (scrape_page site home 0 1 (init_scraper home)))"
    unfolding list_all_iff by blast
  with run links skip show ?thesis by blast
qed

subsection \<open>C5: a page that fails\<close>

text \<open>
  Claim C5: when the fetch of a URL fails, \<^verbatim>\<open>scrape_page\<close> returns through its handler:
  \<^verbatim>\<open>errors\<close> is one more, \<^verbatim>\<open>last_error\<close> is the message and both are in the last report; the
  URL is visited and requested once, no page is counted and no video added. The call
  returns a scraper object, whatever the failure, and the loop over the links of the
  parent goes on with the remaining links from that object.
\<close>

theorem fetch_failure_contained:
  assumes "fetch w u = Inl e" and "\<not> (max_depth < depth \<or> u \<in> visited_urls s)"
  shows "scrape_page w u depth max_depth s = page_failed e (begin_page u depth s) \<and>
    errors (progress (scrape_page w u depth max_depth s)) = errors (progress s) + 1 \<and>
    last_error (progress (scrape_page w u depth max_depth s)) = Some e \<and>
    last (emitted (scrape_page w u depth max_depth s)) =
      progress (scrape_page w u depth max_depth s) \<and>
    pages_scraped (progress (scrape_page w u depth max_depth s)) = pages_scraped (progress s) \<and>
    videos_found (scrape_page w u depth max_depth s) = videos_found s \<and>
    visited_urls (scrape_page w u depth max_depth s) = insert u (visited_urls s) \<and>
    requests (scrape_page w u depth max_depth s) = requests s @ [(u, depth)] \<and>
    (urljoin w pu link = u \<longrightarrow> netloc w u = netloc w (base_url s) \<longrightarrow>
       \<not> has_non_page_ext u \<longrightarrow>
       follow_links w pu (link # links) (depth - 1) max_depth s =
         follow_links w pu links (depth - 1) max_depth
           (page_failed e (begin_page u depth s)))"
proof -
  have run: "scrape_page w u depth max_depth s = page_failed e (begin_page u depth s)"
    using assms by (simp add: scrape_page_failed)
  have "follow_links w pu (link # links) (depth - 1) max_depth s =
         follow_links w pu links (depth - 1) max_depth (page_failed e (begin_page u depth s))"
    if "urljoin w pu link = u" "netloc w u = netloc w (base_url s)" "\<not> has_non_page_ext u"
    using that run by (simp add: follow_links_step)
  then show ?thesis
    unfolding run by simp
qed

text \<open>On the site, \<^verbatim>\<open>/down\<close> fails and the link after it is still requested.\<close>

theorem fetch_failure_contained_witness:
  "fetch site ''http://example.com/down'' = Inl ''503 Server Error'' \<and>
   \<not> ((1::int) < 1 \<or> ''http://example.com/down'' \<in> visited_urls (init_scraper home)) \<and>
   errors (progress (scrape_page site ''http://example.com/down'' 1 1 (init_scraper home))) = 1 \<and>
   last_error (progress (scrape_page site ''http://example.com/down'' 1 1 (init_scraper home))) =
     Some ''503 Server Error'' \<and>
   requests
     (follow_links site home [''http://example.com/down'', ''http://example.com/page2''] 0 1
        (init_scraper home)) =
     [(''http://example.com/down'', 1), (''http://example.com/page2'', 1)]"
proof -
  have a: "fetch site ''http://example.com/down'' = Inl ''503 Server Error''"
    by (simp add: site_def)
  have b: "\<not> ((1::int) < 1 \<or> ''http://example.com/down'' \<in> visited_urls (init_scraper home))"
    by (simp add: init_scraper_def)
  have c: "requests
     (follow_links site home [''http://example.com/down'', ''http://example.com/page2''] 0 1
        (init_scraper home)) =
     [(''http://example.com/down'', 1), (''http://example.com/page2'', 1)]"
    by code_simp
  from fetch_failure_contained [OF a b]
  have "errors (progress (scrape_page site ''http://example.com/down'' 1 1 (init_scraper home))) =
      errors (progress (init_scraper home)) + 1"
    and "last_error (progress (scrape_page site ''http://example.com/down'' 1 1 (init_scraper home))) =
      Some ''503 Server Error''"
    by blast+
  with a b c show ?thesis
    by (simp add: init_scraper_def init_progress_def)
qed

subsection \<open>C6: the visited set\<close>

lemma visited_invariant:
  assumes "finite (visited_urls s)"
    and "fst ` set (requests s) \<subseteq> visited_urls s"
    and "pages_scraped (progress s) \<le> int (card (visited_urls s))"
  shows "finite (visited_urls (scrape_page w u d m s)) \<and>
    fst ` set (requests (scrape_page w u d m s)) \<subseteq> visited_urls (scrape_page w u d m s) \<and>
    visited_urls s \<subseteq> visited_urls (scrape_page w u d m s) \<and>
    pages_scraped (progress (scrape_page w u d m s)) \<le>
      int (card (visited_urls (scrape_page w u d m s)))"
proof -
  let ?I = "\<lambda>t. finite (visited_urls t) \<and> fst ` set (requests t) \<subseteq> visited_urls t \<and>
              visited_urls s \<subseteq> visited_urls t \<and>
              pages_scraped (progress t) \<le> int (card (visited_urls t))"
  let ?J = "\<lambda>t. finite (visited_urls t) \<and> fst ` set (requests t) \<subseteq> visited_urls t \<and>
              visited_urls s \<subseteq> visited_urls t \<and>
              pages_scraped (progress t) + 1 \<le> int (card (visited_urls t))"
  have "page_steps w m ?I ?J (\<lambda>a k. True)"
    unfolding page_steps_def by auto
  from crawl_invariant(1) [OF this, where s = s and u = u and d = d] assms show ?thesis
    by simp
qed

text \<open>
  Claim C6: if the visited set is finite, holds every URL requested so far and has at
  least \<^verbatim>\<open>pages_scraped\<close> members, then the same is true after any call of \<^verbatim>\<open>scrape_page\<close>, and
  the set has only grown. Inside a call the URL joins the set before its request goes
  out. The scraper object of \<^verbatim>\<open>__init__\<close> satisfies the three conditions.
\<close>

theorem visited_covers_requests:
  assumes "finite (visited_urls s)"
    and "fst ` set (requests s) \<subseteq> visited_urls s"
    and "pages_scraped (progress s) \<le> int (card (visited_urls s))"
  shows "fst ` set (requests (scrape_page w u d m s)) \<subseteq> visited_urls (scrape_page w u d m s) \<and>
    visited_urls s \<subseteq> visited_urls (scrape_page w u d m s) \<and>
    finite (visited_urls (scrape_page w u d m s)) \<and>
    pages_scraped (progress (scrape_page w u d m s)) \<le>
      int (card (visited_urls (scrape_page w u d m s))) \<and>
    u \<in> visited_urls (begin_page u d s) \<and>
    requests (begin_page u d s) = requests s @ [(u, d)] \<and>
    fst ` set (requests (begin_page u d s)) \<subseteq> visited_urls (begin_page u d s)"
  using visited_invariant [OF assms, of w u d m] assms(2) by auto

text \<open>The run on the site: three URLs visited, two pages scraped.\<close>

theorem visited_covers_requests_witness:
  "finite (visited_urls (init_scraper home)) \<and>
   fst ` set (requests (init_scraper home)) \<subseteq> visited_urls (init_scraper home) \<and>
   pages_scraped (progress (init_scraper home)) \<le> int (card (visited_urls (init_scraper home))) \<and>
   visited_urls (scrape_page site home 0 1 (init_scraper home)) =
     {''http://example.com/'', ''http://example.com/down'', ''http://example.com/page2''} \<and>
   pages_scraped (progress (scrape_page site home 0 1 (init_scraper home))) = 2 \<and>
   pages_scraped (progress (scrape_page site home 0 1 (init_scraper home))) \<le>
     int (card (visited_urls (scrape_page site home 0 1 (init_scraper home))))"
proof -
  have a: "finite (visited_urls (init_scraper home))"
    and b: "fst ` set (requests (init_scraper home)) \<subseteq> visited_urls (init_scraper home)"
    and c: "pages_scraped (progress (init_scraper home)) \<le>
      int (card (visited_urls (init_scraper home)))"
    by (simp_all add: init_scraper_def init_progress_def)
  have run: "visited_urls (scrape_page site home 0 1 (init_scraper home)) =
     {''http://example.com/'', ''http://example.com/down'', ''http://example.com/page2''}"
    "pages_scraped (progress (scrape_page site home 0 1 (init_scraper home))) = 2"
    by code_simp+
  from visited_covers_requests [OF a b c, of site home 0 1]
  have "pages_scraped (progress (scrape_page site home 0 1 (init_scraper home))) \<le>
     int (card (visited_urls (scrape_page site home 0 1 (init_scraper home))))"
    by blast
  with a b c run show ?thesis by blast
qed

subsection \<open>C7: the counters of the progress reports\<close>

lemma counters_le_refl [simp]: "counters_le p p"
  by (simp add: counters_le_def)






subsection \<open>C8: the download phase\<close>

lemma crawl_keeps_downloaded:
  "n_videos_downloaded (progress (scrape_page w u d m s)) = n_videos_downloaded (progress s) \<and>
   videos_downloaded (scrape_page w u d m s) = videos_downloaded s"
proof -
  define I where "I t \<longleftrightarrow>
      n_videos_downloaded (progress t) = n_videos_downloaded (progress s) \<and>
      videos_downloaded t = videos_downloaded s" for t :: scraper
  have "page_steps w m I I (\<lambda>a k. True)"
    unfolding page_steps_def I_def by simp
  moreover have "I s"
    unfolding I_def by simp
  ultimately have "I (scrape_page w u d m s)"
    by (rule crawl_invariant(1)) simp
  then show ?thesis
    unfolding I_def .
qed

text \<open>
  Claim C8: with no video found, \<^verbatim>\<open>download_videos\<close> reports \<^verbatim>\<open>no_videos_found\<close> and returns;
  nothing reaches the pool and \<^verbatim>\<open>videos_downloaded\<close> is as before, which is 0 after a crawl
  from the root. Otherwise it reports \<^verbatim>\<open>downloading_videos\<close> with the number of all videos
  found and hands the pool the first 20 of them at most, in the order of the list,
  whatever \<open>quality\<close> and \<open>concurrent\<close> are.
\<close>

theorem download_phase:
  "(videos_found s = [] \<longrightarrow>
      download_videos pool q c s = update_progress [Status ''no_videos_found''] s \<and>
      status (progress (download_videos pool q c s)) = ''no_videos_found'' \<and>
      n_videos_downloaded (progress (download_videos pool q c s)) =
        n_videos_downloaded (progress s) \<and>
      videos_downloaded (download_videos pool q c s) = videos_downloaded s) \<and>
   (videos_found s \<noteq> [] \<longrightarrow>
      download_videos pool q c s =
        pool q c (take 20 (videos_found s))
          (update_progress
             [Status ''downloading_videos'',
              Total_to_download (int (length (videos_found s)))] s) \<and>
      length (take 20 (videos_found s)) \<le> 20 \<and>
      prefix (take 20 (videos_found s)) (videos_found s) \<and>
      status (progress (update_progress
             [Status ''downloading_videos'',
              Total_to_download (int (length (videos_found s)))] s)) = ''downloading_videos'' \<and>
      total_to_download (progress (update_progress
             [Status ''downloading_videos'',
              Total_to_download (int (length (videos_found s)))] s)) =
        Some (int (length (videos_found s)))) \<and>
   (videos_found (scrape_page w u 0 m (init_scraper b)) = [] \<longrightarrow>
      status (progress (download_videos pool q c (scrape_page w u 0 m (init_scraper b)))) =
        ''no_videos_found'' \<and>
      n_videos_downloaded
        (progress (download_videos pool q c (scrape_page w u 0 m (init_scraper b)))) = 0)"
proof (intro conjI impI)
  assume "videos_found (scrape_page w u 0 m (init_scraper b)) = []"
  moreover have "n_videos_downloaded (progress (scrape_page w u 0 m (init_scraper b))) = 0"
    using crawl_keeps_downloaded [of w u 0 m "init_scraper b"]
    by (simp add: init_scraper_def init_progress_def)
  ultimately show "n_videos_downloaded
        (progress (download_videos pool q c (scrape_page w u 0 m (init_scraper b)))) = 0"
    by (simp add: download_videos_def)
qed (simp_all add: download_videos_def take_is_prefix)

text \<open>
  An empty list, and a list of 25 videos with a pool that keeps the videos it is
  handed.
\<close>

theorem download_phase_witness:
  "videos_found (init_scraper home) = [] \<and>
   status (progress (download_videos no_pool ''best'' 3 (init_scraper home))) =
     ''no_videos_found'' \<and>
   n_videos_downloaded (progress (download_videos no_pool ''best'' 3 (init_scraper home))) = 0 \<and>
   length (videos_found
     ((init_scraper home)
        \<lparr>videos_found :=
           replicate 25
             \<lparr>title = None, url = ''http://example.com/v/1.mp4'', thumbnail = None,
              duration = None, views = None\<rparr>\<rparr>)) = 25 \<and>
   videos_downloaded
     (download_videos (\<lambda>q c batch s. s\<lparr>videos_downloaded := batch\<rparr>) ''best'' 3
        ((init_scraper home)
           \<lparr>videos_found :=
              replicate 25
                \<lparr>title = None, url = ''http://example.com/v/1.mp4'', thumbnail = None,
                 duration = None, views = None\<rparr>\<rparr>)) =
     replicate 20
       \<lparr>title = None, url = ''http://example.com/v/1.mp4'', thumbnail = None,
        duration = None, views = None\<rparr>"
proof -
  let ?v = "\<lparr>title = None, url = ''http://example.com/v/1.mp4'', thumbnail = None,
             duration = None, views = None\<rparr>"
  let ?many = "(init_scraper home)\<lparr>videos_found := replicate 25 ?v\<rparr>"
  have none: "videos_found (init_scraper home) = []"
    by (simp add: init_scraper_def)
  have zero: "n_videos_downloaded (progress (init_scraper home)) = 0"
    by (simp add: init_scraper_def init_progress_def)
  have some: "videos_found ?many \<noteq> []" "length (videos_found ?many) = 25"
    by simp_all
  from download_phase [where s = "init_scraper home" and pool = no_pool and q = "''best''"
      and c = 3] none zero
  have empty: "status (progress (download_videos no_pool ''best'' 3 (init_scraper home))) =
     ''no_videos_found''"
    "n_videos_downloaded (progress (download_videos no_pool ''best'' 3 (init_scraper home))) = 0"
    by simp_all
  from download_phase [where s = ?many
      and pool = "\<lambda>q c batch s. s\<lparr>videos_downloaded := batch\<rparr>" and q = "''best''" and c = 3]
    some(1)
  have "download_videos (\<lambda>q c batch s. s\<lparr>videos_downloaded := batch\<rparr>) ''best'' 3 ?many =
      (update_progress
         [Status ''downloading_videos'', Total_to_download (int (length (videos_found ?many)))]
         ?many)\<lparr>videos_downloaded := take 20 (videos_found ?many)\<rparr>"
    by blast
  then have "videos_downloaded
      (download_videos (\<lambda>q c batch s. s\<lparr>videos_downloaded := batch\<rparr>) ''best'' 3 ?many) =
      replicate 20 ?v"
    by simp
  with none empty some(2) show ?thesis by blast
qed

subsection \<open>C9: the info-only utility\<close>






end
